theory Spec2Isabelle
  imports Main "HOL-Library.AList"
begin

section \<open>Python strings\<close>

text \<open>
  A Python \<open>str\<close> is modelled as a \<open>string\<close> whose characters are the code points
  below 256 (Latin-1). All string methods used by \<open>client.py\<close> are written out for
  that range.
\<close>

text \<open>\<open>str.isspace\<close> on one character: TAB..CR, FS..US, SPACE, NEL and NBSP.\<close>

definition is_space :: "char \<Rightarrow> bool" where
  "is_space c =
     (let n = (of_char c :: nat)
      in (9 \<le> n \<and> n \<le> 13) \<or> (28 \<le> n \<and> n \<le> 32) \<or> n = 133 \<or> n = 160)"

text \<open>\<open>s.strip()\<close>: leading and trailing whitespace removed.\<close>

definition strip :: "string \<Rightarrow> string" where
  "strip s = rev (dropWhile is_space (rev (dropWhile is_space s)))"

text \<open>\<open>s.strip(chars)\<close>: leading and trailing characters of \<open>chars\<close> removed.\<close>

definition strip_chars :: "string \<Rightarrow> string \<Rightarrow> string" where
  "strip_chars chars s =
     rev (dropWhile (\<lambda>c. c \<in> set chars) (rev (dropWhile (\<lambda>c. c \<in> set chars) s)))"

text \<open>\<open>s.startswith(p)\<close>.\<close>

definition startswith :: "string \<Rightarrow> string \<Rightarrow> bool" where
  "startswith s p = (take (length p) s = p)"

text \<open>\<open>s.find(c)\<close> for a one-character needle: the first index, or \<open>-1\<close>.\<close>

definition find_char :: "string \<Rightarrow> char \<Rightarrow> int" where
  "find_char s c = (if c \<in> set s then int (length (takeWhile (\<lambda>x. x \<noteq> c) s)) else - 1)"

text \<open>\<open>s.split(c, 1)\<close>: at most one split, at the first occurrence of \<open>c\<close>.\<close>

definition split1 :: "char \<Rightarrow> string \<Rightarrow> string list" where
  "split1 c s =
     (if c \<in> set s then [takeWhile (\<lambda>x. x \<noteq> c) s, tl (dropWhile (\<lambda>x. x \<noteq> c) s)]
      else [s])"

text \<open>\<open>s.split(c)\<close>: split at every occurrence of \<open>c\<close>; the result is never empty.\<close>

fun split_all :: "char \<Rightarrow> string \<Rightarrow> string list" where
  "split_all c [] = [[]]"
| "split_all c (x # xs) =
     (if x = c then [] # split_all c xs
      else (case split_all c xs of
              w # ws \<Rightarrow> (x # w) # ws
            | [] \<Rightarrow> [[x]]))"

text \<open>\<open>s.lower()\<close> on Latin-1: \<open>A..Z\<close> and the accented capitals move up by 32.\<close>

definition lower_char :: "char \<Rightarrow> char" where
  "lower_char c =
     (let n = (of_char c :: nat)
      in if (65 \<le> n \<and> n \<le> 90) \<or> (192 \<le> n \<and> n \<le> 222 \<and> n \<noteq> 215)
         then char_of (n + 32) else c)"

definition lower :: "string \<Rightarrow> string" where
  "lower s = map lower_char s"

section \<open>Exceptions\<close>

datatype exn =
    JSONDecodeError
  | ValueError
  | IndexError
  | EOFError
  | RecursionError
  | GraphRecursionError
  | Exception string

text \<open>\<open>xs[1]\<close>, raising \<open>IndexError\<close> out of range.\<close>

definition index1 :: "'a list \<Rightarrow> exn + 'a" where
  "index1 xs = (case xs of _ # y # _ \<Rightarrow> Inr y | _ \<Rightarrow> Inl IndexError)"

section \<open>Command classifier: \<open>extract_meta_command\<close>\<close>

text \<open>
  The function returns a pair \<open>(cmd_type, value)\<close>: \<open>("resource", uri)\<close>,
  \<open>("prompt", name)\<close>, \<open>("use_resource", (uri, query))\<close> or \<open>(None, None)\<close>.
\<close>

datatype meta_command =
    Resource_cmd string
  | Prompt_cmd string
  | Use_resource_cmd string string
  | No_command

definition extract_meta_command :: "string \<Rightarrow> exn + meta_command" where
  "extract_meta_command message =
     (if startswith message ''@resource:'' then
        (case index1 (split1 CHR '':'' message) of
           Inl e \<Rightarrow> Inl e
         | Inr r \<Rightarrow> Inr (Resource_cmd (strip_chars [CHR 0x22] (strip r))))
      else if startswith message ''@prompt:'' then
        (case index1 (split1 CHR '':'' message) of
           Inl e \<Rightarrow> Inl e
         | Inr r \<Rightarrow> Inr (Prompt_cmd (strip_chars [CHR 0x22] (strip r))))
      else if startswith message ''@use_resource:'' then
        (case index1 (split1 CHR '':'' message) of
           Inl e \<Rightarrow> Inl e
         | Inr r \<Rightarrow>
             (let parts = strip r;
                  space_index = find_char parts CHR '' ''
              in if space_index \<noteq> - 1 then
                   Inr (Use_resource_cmd
                          (strip (take (nat space_index) parts))
                          (strip (drop (nat (space_index + 1)) parts)))
                 else Inr (Use_resource_cmd (strip parts) [])))
      else Inr No_command)"

section \<open>JSON values and \<open>json.loads\<close>\<close>

text \<open>
  The values \<open>json.loads\<close> can return. A JSON string may hold any code point (through a
  \<open>\uXXXX\<close> escape), so the strings inside values are lists of code points. A float is
  kept as the exact decimal number of its literal, \<open>Decimal m e\<close> for \<open>m * 10 ^ e\<close>; its
  rounding to a double (to infinity, for a literal too large) is not carried out.
  A Python \<open>dict\<close> is an association list in insertion order with distinct keys:
  \<open>d[k] = v\<close> is \<open>AList.update k v d\<close> and \<open>del d[k]\<close> is \<open>AList.delete k d\<close>.
\<close>

type_synonym ustring = "nat list"

definition unicode :: "string \<Rightarrow> ustring" where
  "unicode s = map of_char s"

datatype float_lit = Decimal int int | NaN | Infinity | Neg_Infinity

datatype json =
    JNull
  | JBool bool
  | JInt int
  | JFloat float_lit
  | JStr ustring
  | JList "json list"
  | JDict "(ustring \<times> json) list"

text \<open>
  Truth value of a Python object, as \<open>not args\<close> tests it. A float literal is zero after
  rounding to a double exactly when its magnitude is at most \<open>2 ^ -1075\<close>.
\<close>

fun float_nonzero :: "float_lit \<Rightarrow> bool" where
  "float_nonzero (Decimal m e) =
     (if m = 0 then False
      else if 0 \<le> e then True
      else 10 ^ nat (- e) < \<bar>m\<bar> * 2 ^ 1075)"
| "float_nonzero NaN = True"
| "float_nonzero Infinity = True"
| "float_nonzero Neg_Infinity = True"

fun truthy :: "json \<Rightarrow> bool" where
  "truthy JNull = False"
| "truthy (JBool b) = b"
| "truthy (JInt i) = (i \<noteq> 0)"
| "truthy (JFloat f) = float_nonzero f"
| "truthy (JStr s) = (s \<noteq> [])"
| "truthy (JList xs) = (xs \<noteq> [])"
| "truthy (JDict d) = (d \<noteq> [])"

text \<open>
  The decoder follows CPython's scanner (\<open>scan_once\<close>, \<open>scanstring\<close> in strict mode,
  \<open>_match_number\<close>, \<open>_parse_array\<close>, \<open>_parse_object\<close>) on a \<open>str\<close> input. Every
  syntax error is a \<open>JSONDecodeError\<close>. The interpreter's limits are not modelled: where
  CPython raises \<open>RecursionError\<close> for a deep nesting or \<open>ValueError\<close> for an integer of
  more than 4300 digits, \<open>json_loads\<close> returns the value. \<open>parse_arguments\<close> takes the
  decoder as a parameter and lets every exception but \<open>JSONDecodeError\<close> escape.
\<close>

definition json_ws :: "char \<Rightarrow> bool" where
  "json_ws c = (c = CHR '' '' \<or> c = CHR 0x09 \<or> c = CHR 0x0A \<or> c = CHR 0x0D)"

definition skip_ws :: "string \<Rightarrow> string" where
  "skip_ws s = dropWhile json_ws s"

definition is_digit :: "char \<Rightarrow> bool" where
  "is_digit c = (let n = (of_char c :: nat) in 48 \<le> n \<and> n \<le> 57)"

definition digits_value :: "string \<Rightarrow> nat" where
  "digits_value ds = foldl (\<lambda>a c. 10 * a + (of_char c - 48)) 0 ds"

definition hex_digit :: "char \<Rightarrow> nat option" where
  "hex_digit c =
     (let n = (of_char c :: nat)
      in if 48 \<le> n \<and> n \<le> 57 then Some (n - 48)
         else if 65 \<le> n \<and> n \<le> 70 then Some (n - 55)
         else if 97 \<le> n \<and> n \<le> 102 then Some (n - 87)
         else None)"

definition hex4 :: "char \<Rightarrow> char \<Rightarrow> char \<Rightarrow> char \<Rightarrow> nat option" where
  "hex4 a b c d =
     (case (hex_digit a, hex_digit b, hex_digit c, hex_digit d) of
        (Some w, Some x, Some y, Some z) \<Rightarrow> Some (((w * 16 + x) * 16 + y) * 16 + z)
      | _ \<Rightarrow> None)"

definition backslash_escape :: "char \<Rightarrow> nat option" where
  "backslash_escape e =
     (if e = CHR 0x22 then Some 34
      else if e = CHR 0x5C then Some 92
      else if e = CHR ''/'' then Some 47
      else if e = CHR ''b'' then Some 8
      else if e = CHR ''f'' then Some 12
      else if e = CHR ''n'' then Some 10
      else if e = CHR ''r'' then Some 13
      else if e = CHR ''t'' then Some 9
      else None)"

definition is_high_surrogate :: "nat \<Rightarrow> bool" where
  "is_high_surrogate n = (55296 \<le> n \<and> n \<le> 56319)"

definition is_low_surrogate :: "nat \<Rightarrow> bool" where
  "is_low_surrogate n = (56320 \<le> n \<and> n \<le> 57343)"

definition join_surrogates :: "nat \<Rightarrow> nat \<Rightarrow> nat" where
  "join_surrogates hi lo = 65536 + (hi - 55296) * 1024 + (lo - 56320)"

definition cons_char :: "nat \<Rightarrow> exn + (ustring \<times> string) \<Rightarrow> exn + (ustring \<times> string)" where
  "cons_char n r = (case r of Inl e \<Rightarrow> Inl e | Inr (str, rest) \<Rightarrow> Inr (n # str, rest))"

text \<open>\<open>scanstring\<close>, entered after the opening quote: the decoded string and the rest.\<close>

fun scanstring :: "string \<Rightarrow> exn + (ustring \<times> string)" where
  "scanstring [] = Inl JSONDecodeError"
| "scanstring (c # cs) =
     (if c = CHR 0x22 then Inr ([], cs)
      else if c = CHR 0x5C then
        (case cs of
           [] \<Rightarrow> Inl JSONDecodeError
         | e # es \<Rightarrow>
             if e \<noteq> CHR ''u'' then
               (case backslash_escape e of
                  None \<Rightarrow> Inl JSONDecodeError
                | Some n \<Rightarrow> cons_char n (scanstring es))
             else
               (case es of
                  h1 # h2 # h3 # h4 # r \<Rightarrow>
                    (if r = [] then Inl JSONDecodeError
                     else
                       (case hex4 h1 h2 h3 h4 of
                          None \<Rightarrow> Inl JSONDecodeError
                        | Some n \<Rightarrow>
                            (case r of
                               b # u # k1 # k2 # k3 # k4 # r2 \<Rightarrow>
                                 if is_high_surrogate n \<and> r2 \<noteq> [] \<and> b = CHR 0x5C \<and> u = CHR ''u''
                                 then
                                   (case hex4 k1 k2 k3 k4 of
                                      None \<Rightarrow> Inl JSONDecodeError
                                    | Some n2 \<Rightarrow>
                                        if is_low_surrogate n2
                                        then cons_char (join_surrogates n n2) (scanstring r2)
                                        else cons_char n (scanstring r))
                                 else cons_char n (scanstring r)
                             | _ \<Rightarrow> cons_char n (scanstring r))))
                | _ \<Rightarrow> Inl JSONDecodeError))
      else if (of_char c :: nat) \<le> 31 then Inl JSONDecodeError
      else cons_char (of_char c) (scanstring cs))"

text \<open>The exponent part of a number: its value and the rest, when one is present.\<close>

definition match_exponent :: "string \<Rightarrow> (int \<times> string) option" where
  "match_exponent s =
     (case s of
        e # r \<Rightarrow>
          if (e = CHR ''e'' \<or> e = CHR ''E'') \<and> r \<noteq> [] then
            (let (neg, r1) =
                   (case r of
                      g # r' \<Rightarrow>
                        if (g = CHR ''-'' \<or> g = CHR ''+'') \<and> r' \<noteq> [] then (g = CHR ''-'', r')
                        else (False, r)
                    | [] \<Rightarrow> (False, r));
                 ds = takeWhile is_digit r1
             in if ds = [] then None
                else Some ((if neg then - int (digits_value ds) else int (digits_value ds)),
                           dropWhile is_digit r1))
          else None
      | [] \<Rightarrow> None)"

text \<open>\<open>_match_number\<close>: \<open>None\<close> stands for \<open>StopIteration\<close>.\<close>

definition match_number :: "string \<Rightarrow> (json \<times> string) option" where
  "match_number s =
     (let (neg, s1) =
            (case s of
               c # r \<Rightarrow> if c = CHR ''-'' then (True, r) else (False, s)
             | [] \<Rightarrow> (False, s))
      in case s1 of
           [] \<Rightarrow> None
         | d # r \<Rightarrow>
             if \<not> is_digit d then None
             else
               (let (ip, s2) =
                      (if d = CHR ''0'' then ([d], r)
                       else (d # takeWhile is_digit r, dropWhile is_digit r));
                    (fp, s3) =
                      (case s2 of
                         p # f # r3 \<Rightarrow>
                           if p = CHR ''.'' \<and> is_digit f
                           then (Some (f # takeWhile is_digit r3), dropWhile is_digit r3)
                           else (None, s2)
                       | _ \<Rightarrow> (None, s2));
                    sgn = (if neg then - 1 else 1 :: int)
                in case (fp, match_exponent s3) of
                     (None, None) \<Rightarrow> Some (JInt (sgn * int (digits_value ip)), s3)
                   | (Some fd, None) \<Rightarrow>
                       Some (JFloat (Decimal (sgn * int (digits_value (ip @ fd)))
                                             (- int (length fd))), s3)
                   | (None, Some (ex, s4)) \<Rightarrow>
                       Some (JFloat (Decimal (sgn * int (digits_value ip)) ex), s4)
                   | (Some fd, Some (ex, s4)) \<Rightarrow>
                       Some (JFloat (Decimal (sgn * int (digits_value (ip @ fd)))
                                             (ex - int (length fd))), s4)))"

text \<open>
  \<open>scan_once\<close> with the array and object loops. The first argument bounds the number of
  nested calls of this model; \<open>json_loads\<close> gives a bound that no input exhausts (lemma
  \<open>json_loads_error\<close> below).
\<close>

fun scan_once :: "nat \<Rightarrow> string \<Rightarrow> exn + (json \<times> string)"
  and parse_array :: "nat \<Rightarrow> string \<Rightarrow> json list \<Rightarrow> exn + (json \<times> string)"
  and parse_object :: "nat \<Rightarrow> string \<Rightarrow> (ustring \<times> json) list \<Rightarrow> exn + (json \<times> string)"
where
  "scan_once 0 s = Inl RecursionError"
| "scan_once (Suc n) [] = Inl JSONDecodeError"
| "scan_once (Suc n) (c # cs) =
     (if c = CHR 0x22 then
        (case scanstring cs of
           Inl e \<Rightarrow> Inl e
         | Inr (str, r) \<Rightarrow> Inr (JStr str, r))
      else if c = CHR ''{'' then
        (case skip_ws cs of
           [] \<Rightarrow> parse_object n [] []
         | k # r \<Rightarrow> if k = CHR ''}'' then Inr (JDict [], r) else parse_object n (k # r) [])
      else if c = CHR ''['' then
        (case skip_ws cs of
           [] \<Rightarrow> parse_array n [] []
         | k # r \<Rightarrow> if k = CHR '']'' then Inr (JList [], r) else parse_array n (k # r) [])
      else if startswith (c # cs) ''null'' then Inr (JNull, drop 4 (c # cs))
      else if startswith (c # cs) ''true'' then Inr (JBool True, drop 4 (c # cs))
      else if startswith (c # cs) ''false'' then Inr (JBool False, drop 5 (c # cs))
      else if startswith (c # cs) ''NaN'' then Inr (JFloat NaN, drop 3 (c # cs))
      else if startswith (c # cs) ''Infinity'' then Inr (JFloat Infinity, drop 8 (c # cs))
      else if startswith (c # cs) ''-Infinity'' then Inr (JFloat Neg_Infinity, drop 9 (c # cs))
      else (case match_number (c # cs) of
              None \<Rightarrow> Inl JSONDecodeError
            | Some vr \<Rightarrow> Inr vr))"
| "parse_array 0 s items = Inl RecursionError"
| "parse_array (Suc n) s items =
     (case scan_once n s of
        Inl e \<Rightarrow> Inl e
      | Inr (val, r) \<Rightarrow>
          (case skip_ws r of
             [] \<Rightarrow> Inl JSONDecodeError
           | k # r' \<Rightarrow>
               if k = CHR '']'' then Inr (JList (items @ [val]), r')
               else if k = CHR '','' then parse_array n (skip_ws r') (items @ [val])
               else Inl JSONDecodeError))"
| "parse_object 0 s pairs = Inl RecursionError"
| "parse_object (Suc n) s pairs =
     (case s of
        [] \<Rightarrow> Inl JSONDecodeError
      | q # s1 \<Rightarrow>
          if q \<noteq> CHR 0x22 then Inl JSONDecodeError
          else
            (case scanstring s1 of
               Inl e \<Rightarrow> Inl e
             | Inr (key, r) \<Rightarrow>
                 (case skip_ws r of
                    [] \<Rightarrow> Inl JSONDecodeError
                  | col # r1 \<Rightarrow>
                      if col \<noteq> CHR '':'' then Inl JSONDecodeError
                      else
                        (case scan_once n (skip_ws r1) of
                           Inl e \<Rightarrow> Inl e
                         | Inr (val, r2) \<Rightarrow>
                             (case skip_ws r2 of
                                [] \<Rightarrow> Inl JSONDecodeError
                              | k # r3 \<Rightarrow>
                                  if k = CHR ''}'' then
                                    Inr (JDict (AList.update key val pairs), r3)
                                  else if k = CHR '','' then
                                    parse_object n (skip_ws r3) (AList.update key val pairs)
                                  else Inl JSONDecodeError)))))"

text \<open>\<open>json.loads\<close>: leading whitespace, one value, trailing whitespace, nothing else.\<close>

definition json_loads :: "string \<Rightarrow> exn + json" where
  "json_loads s =
     (case scan_once (2 * length s + 2) (skip_ws s) of
        Inl e \<Rightarrow> Inl e
      | Inr (obj, r) \<Rightarrow> if skip_ws r = [] then Inr obj else Inl JSONDecodeError)"

text \<open>
  A scan of \<open>s\<close> is well behaved when it either fails with a \<open>JSONDecodeError\<close> or
  returns a rest that is shorter than \<open>s\<close>.
\<close>

definition consumes :: "exn + ('a \<times> string) \<Rightarrow> string \<Rightarrow> bool" where
  "consumes x s =
     (case x of
        Inl e \<Rightarrow> e = JSONDecodeError
      | Inr (v, r) \<Rightarrow> length r < length s)"

section \<open>Argument parser: \<open>parse_arguments\<close>\<close>

text \<open>
  The loop of the second strategy. It updates \<open>args\<close> in place, so what it had inserted
  before an exception stays: the loop returns the dictionary and the exception, if any.
\<close>

fun pairs_loop :: "string list \<Rightarrow> (ustring \<times> json) list \<Rightarrow> (ustring \<times> json) list \<times> exn option" where
  "pairs_loop [] args = (args, None)"
| "pairs_loop (pair # pairs) args =
     (if CHR '':'' \<in> set pair then
        (case map strip (split1 CHR '':'' pair) of
           [key, val] \<Rightarrow> pairs_loop pairs (AList.update (unicode key) (JStr (unicode val)) args)
         | _ \<Rightarrow> (args, Some ValueError))
      else pairs_loop pairs args)"

text \<open>
  \<open>parse_arguments\<close>, with \<open>json.loads\<close> as the parameter \<open>loads\<close>. Only a
  \<open>JSONDecodeError\<close> of the decoder is caught; what the decoder returns is returned
  as it is.
\<close>

definition parse_arguments :: "(string \<Rightarrow> exn + json) \<Rightarrow> string \<Rightarrow> exn + json" where
  "parse_arguments loads raw =
     (let raw_input_str = strip raw
      in case loads raw_input_str of
           Inr args \<Rightarrow> Inr args
         | Inl JSONDecodeError \<Rightarrow>
             (case pairs_loop (split_all CHR '','' raw_input_str) [] of
                (args, None) \<Rightarrow> Inr (JDict args)
              | (args, Some _) \<Rightarrow>
                  (case map strip (split1 CHR '':'' raw_input_str) of
                     [key, val] \<Rightarrow>
                       Inr (JDict (AList.update (unicode key) (JStr (unicode val)) args))
                   | _ \<Rightarrow> Inr (JDict [])))
         | Inl e \<Rightarrow> Inl e)"

section \<open>Resource cache and message composer\<close>

text \<open>The global \<open>loaded_resources\<close>: a dictionary from URI to content.\<close>

type_synonym resources = "(string \<times> string) list"

text \<open>\<open>repr\<close> of a \<open>str\<close> and \<open>str\<close> of a list of them, as an f-string formats it.\<close>

definition hex_char :: "nat \<Rightarrow> char" where
  "hex_char d = (if d < 10 then char_of (48 + d) else char_of (87 + d))"

definition repr_char :: "char \<Rightarrow> char \<Rightarrow> string" where
  "repr_char quote c =
     (let n = (of_char c :: nat)
      in if c = quote \<or> c = CHR 0x5C then [CHR 0x5C, c]
         else if c = CHR 0x09 then [CHR 0x5C, CHR ''t'']
         else if c = CHR 0x0A then [CHR 0x5C, CHR ''n'']
         else if c = CHR 0x0D then [CHR 0x5C, CHR ''r'']
         else if n < 32 \<or> n = 127 \<or> (128 \<le> n \<and> n \<le> 160) \<or> n = 173
           then [CHR 0x5C, CHR ''x'', hex_char (n div 16), hex_char (n mod 16)]
         else [c])"

definition repr_str :: "string \<Rightarrow> string" where
  "repr_str s =
     (let quote = (if CHR 0x27 \<in> set s \<and> CHR 0x22 \<notin> set s then CHR 0x22 else CHR 0x27)
      in [quote] @ concat (map (repr_char quote) s) @ [quote])"

fun join :: "string \<Rightarrow> string list \<Rightarrow> string" where
  "join sep [] = []"
| "join sep [x] = x"
| "join sep (x # y # ys) = x @ sep @ join sep (y # ys)"

definition str_list :: "string list \<Rightarrow> string" where
  "str_list xs = ''['' @ join '', '' (map repr_str xs) @ '']''"

definition inject_resource_into_message :: "resources \<Rightarrow> string \<Rightarrow> string \<Rightarrow> string" where
  "inject_resource_into_message loaded_resources user_query resource_uri =
     (case map_of loaded_resources resource_uri of
        Some resource_content \<Rightarrow>
          ''[USING RESOURCE: '' @ resource_uri @ '']'' @ [CHR 0x0A] @ resource_content
            @ [CHR 0x0A, CHR 0x0A] @ ''User query: '' @ user_query
      | None \<Rightarrow>
          ''[ERROR: Resource '' @ [CHR 0x27] @ resource_uri @ [CHR 0x27]
            @ '' not found. Available resources: '' @ str_list (map fst loaded_resources)
            @ '']'' @ [CHR 0x0A, CHR 0x0A] @ ''User query: '' @ user_query)"

section \<open>Orchestration graph: \<open>create_graph\<close>\<close>

datatype tool_call = Tool_call (tc_name: string) (tc_args: string) (tc_id: string)

datatype message =
    SystemMessage string
  | HumanMessage string
  | AIMessage string "tool_call list"
  | ToolMessage string string string

fun content :: "message \<Rightarrow> string" where
  "content (SystemMessage c) = c"
| "content (HumanMessage c) = c"
| "content (AIMessage c _) = c"
| "content (ToolMessage c _ _) = c"

fun tool_calls :: "message \<Rightarrow> tool_call list" where
  "tool_calls (AIMessage _ calls) = calls"
| "tool_calls _ = []"

text \<open>
  The collaborators of the program: the model with its tools bound, the execution of
  one tool call (a failure of the tool is its result text), the two backend operations
  and the JSON decoder.
\<close>

type_synonym blob = "exn + string"

record backends =
  llm_with_tool :: "message list \<Rightarrow> exn + message"
  run_tool :: "tool_call \<Rightarrow> string"
  load_mcp_prompt :: "string \<Rightarrow> json option \<Rightarrow> exn + string list"
  load_mcp_resources :: "string \<Rightarrow> exn + blob list"
  json_decoder :: "string \<Rightarrow> exn + json"

definition system_prompt :: message where
  "system_prompt =
     SystemMessage ''You are a deep research assistant that uses tools to solve problems.''"

text \<open>\<open>chat_node\<close>: the messages the node returns, which the reducer appends.\<close>

definition chat_node :: "backends \<Rightarrow> message list \<Rightarrow> exn + message list" where
  "chat_node env messages =
     (case llm_with_tool env (system_prompt # messages) of
        Inl e \<Rightarrow> Inl e
      | Inr response \<Rightarrow> Inr [response])"

text \<open>\<open>ToolNode\<close>: one tool message for each call of the last message, in their order.\<close>

definition tool_node :: "backends \<Rightarrow> message list \<Rightarrow> message list" where
  "tool_node env messages =
     (if messages = [] then []
      else map (\<lambda>call. ToolMessage (run_tool env call) (tc_name call) (tc_id call))
               (tool_calls (last messages)))"

datatype node = Chat_node | Tool_node

datatype route = Tools | End

definition tools_condition :: "message list \<Rightarrow> route" where
  "tools_condition messages =
     (if messages \<noteq> [] \<and> tool_calls (last messages) \<noteq> [] then Tools else End)"

text \<open>
  \<open>main\<close> invokes the graph with \<open>config = {"configurable": {"thread_id": 1234}}\<close>, which
  sets no \<open>recursion_limit\<close>: the runtime's default of 25 steps applies.
\<close>

definition recursion_limit :: nat where
  "recursion_limit = 25"

text \<open>
  The compiled graph from a node on: \<open>START \<rightarrow> chat_node\<close>, the conditional edge after
  \<open>chat_node\<close>, \<open>tool_node \<rightarrow> chat_node\<close>. Each node execution is one step, and the first
  argument is the number of steps left. The runtime raises \<open>GraphRecursionError\<close> as soon
  as the last step is used, before it looks whether a node is left to run: a run ends
  normally only if its final answer comes before the last step. What the executed nodes
  wrote stays in the state stored under the thread. The result is the list of messages
  reached and the exception that ended the run, if any.
\<close>

fun run_graph :: "backends \<Rightarrow> nat \<Rightarrow> node \<Rightarrow> message list \<Rightarrow> message list \<times> exn option" where
  "run_graph env 0 nd messages = (messages, Some GraphRecursionError)"
| "run_graph env (Suc n) Chat_node messages =
     (case chat_node env messages of
        Inl e \<Rightarrow> (messages, Some e)
      | Inr new \<Rightarrow>
          (case tools_condition (messages @ new) of
             Tools \<Rightarrow> run_graph env n Tool_node (messages @ new)
           | End \<Rightarrow> (messages @ new, if n = 0 then Some GraphRecursionError else None)))"
| "run_graph env (Suc n) Tool_node messages =
     run_graph env n Chat_node (messages @ tool_node env messages)"

text \<open>
  \<open>agent.ainvoke({"messages": text}, config)\<close> on the conversation stored under the
  thread: the text is appended as a human message and the graph runs from \<open>START\<close>.
\<close>

definition agent_ainvoke :: "backends \<Rightarrow> message list \<Rightarrow> string \<Rightarrow> message list \<times> exn option" where
  "agent_ainvoke env conversation text =
     run_graph env recursion_limit Chat_node (conversation @ [HumanMessage text])"

section \<open>Interactive session driver: \<open>main\<close>\<close>

record session =
  loaded_resources :: resources
  conversation :: "message list"

text \<open>What a turn does, in program order: the lines it prints and the calls it makes.\<close>

datatype event =
    Agent_invoked string
  | Prompt_requested string "json option"
  | Resource_requested string
  | Arguments_read string
  | Print_provide_query
  | Print_usage
  | Print_not_loaded string
  | Print_load_first string
  | Print_AI string
  | Print_agent_error exn
  | Print_loaded_prompt string "json option"
  | Print_prompt_content string
  | Print_results_begin
  | Print_results_end
  | Print_no_prompt_messages
  | Print_requires_arguments string exn
  | Print_argument_formats
  | Print_failed_to_parse
  | Print_failed_with_arguments exn
  | Print_arguments_provided json
  | Print_updating string
  | Print_loaded_resource string
  | Print_no_resource_found string
  | Print_failed_to_load_resource exn

text \<open>The events that are printed lines, as opposed to calls and reads.\<close>

fun is_print :: "event \<Rightarrow> bool" where
  "is_print (Agent_invoked _) = False"
| "is_print (Prompt_requested _ _) = False"
| "is_print (Resource_requested _) = False"
| "is_print (Arguments_read _) = False"
| "is_print _ = True"

datatype control = Continue | Break | Raise exn

text \<open>
  The block \<open>try: response = await agent.ainvoke(...); print(...) except Exception\<close>,
  which the driver has in four places; \<open>research\<close> selects the framed output of the
  prompt branch.
\<close>

definition invoke_and_print :: "backends \<Rightarrow> session \<Rightarrow> string \<Rightarrow> bool \<Rightarrow> session \<times> event list" where
  "invoke_and_print env st text research =
     (case agent_ainvoke env (conversation st) text of
        (messages, None) \<Rightarrow>
          (st\<lparr>conversation := messages\<rparr>,
           Agent_invoked text #
             (if research
              then [Print_results_begin, Print_AI (content (last messages)), Print_results_end]
              else [Print_AI (content (last messages))]))
      | (messages, Some e) \<Rightarrow>
          (st\<lparr>conversation := messages\<rparr>, [Agent_invoked text, Print_agent_error e]))"

text \<open>
  The block \<open>if prompt: ... else: print("No prompt messages found")\<close>, which follows both
  resolutions of a prompt; \<open>shown\<close> is 200 after the first and 500 after the retry. The
  contents of the prompt messages are strings, so joining them cannot fail.
\<close>

definition execute_prompt ::
  "backends \<Rightarrow> session \<Rightarrow> string \<Rightarrow> json option \<Rightarrow> nat \<Rightarrow> string list \<Rightarrow> session \<times> event list" where
  "execute_prompt env st value args shown prompt =
     (if prompt \<noteq> [] then
        (let prompt_message =
               (if length prompt = 1 then prompt ! 0 else join [CHR 0x0A] prompt);
             (st', evs) = invoke_and_print env st prompt_message True
         in (st',
             [Print_loaded_prompt value args,
              Print_prompt_content
                (if length prompt_message > shown then take shown prompt_message @ ''...''
                 else prompt_message)] @ evs))
      else (st, [Print_no_prompt_messages]))"

text \<open>
  One pass of the body of \<open>while True\<close>, for the line \<open>input()\<close> returned. \<open>next_line\<close>
  is what a second \<open>input()\<close> in this pass returns (\<open>None\<close> at end of input); the third
  component of the result tells whether it was read.
\<close>

definition main_turn ::
  "backends \<Rightarrow> session \<Rightarrow> string \<Rightarrow> string option \<Rightarrow> session \<times> event list \<times> bool \<times> control" where
  "main_turn env st line next_line =
     (let message = strip line
      in if lower message = ''exit'' \<or> lower message = ''quit'' then (st, [], False, Break)
         else
           (case extract_meta_command message of
              Inl e \<Rightarrow> (st, [], False, Raise e)
            | Inr (Use_resource_cmd resource_uri user_query) \<Rightarrow>
                if user_query = [] then
                  (st, [Print_provide_query, Print_usage], False, Continue)
                else if map_of (loaded_resources st) resource_uri = None then
                  (st, [Print_not_loaded resource_uri, Print_load_first resource_uri],
                   False, Continue)
                else
                  (let enhanced_message =
                         inject_resource_into_message (loaded_resources st) user_query resource_uri;
                       (st', evs) = invoke_and_print env st enhanced_message False
                   in (st', evs, False, Continue))
            | Inr (Prompt_cmd value) \<Rightarrow>
                (case load_mcp_prompt env value None of
                   Inr prompt \<Rightarrow>
                     (let (st', evs) = execute_prompt env st value None 200 prompt
                      in (st', Prompt_requested value None # evs, False, Continue))
                 | Inl e \<Rightarrow>
                     (let evs0 = [Prompt_requested value None,
                                  Print_requires_arguments value e,
                                  Print_argument_formats]
                      in case next_line of
                           None \<Rightarrow> (st, evs0, False, Raise EOFError)
                         | Some l \<Rightarrow>
                             (let raw_input_str = strip l;
                                  evs1 = evs0 @ [Arguments_read l]
                              in case parse_arguments (json_decoder env) raw_input_str of
                                   Inl x \<Rightarrow> (st, evs1, True, Raise x)
                                 | Inr args \<Rightarrow>
                                     if \<not> truthy args then
                                       (st, evs1 @ [Print_failed_to_parse], True, Continue)
                                     else
                                       (case load_mcp_prompt env value (Some args) of
                                          Inr prompt \<Rightarrow>
                                            (let (st', evs) =
                                                   execute_prompt env st value (Some args) 500 prompt
                                             in (st',
                                                 evs1 @ Prompt_requested value (Some args) # evs,
                                                 True, Continue))
                                        | Inl ex \<Rightarrow>
                                            (st,
                                             evs1 @ [Prompt_requested value (Some args),
                                                     Print_failed_with_arguments ex,
                                                     Print_arguments_provided args],
                                             True, Continue)))))
            | Inr (Resource_cmd value) \<Rightarrow>
                (let cached = (map_of (loaded_resources st) value \<noteq> None);
                     st1 = (if cached
                            then st\<lparr>loaded_resources := AList.delete value (loaded_resources st)\<rparr>
                            else st);
                     evs1 = (if cached then [Print_updating value] else [])
                           @ [Resource_requested value]
                 in case load_mcp_resources env value of
                      Inl e \<Rightarrow> (st1, evs1 @ [Print_failed_to_load_resource e], False, Continue)
                    | Inr blob \<Rightarrow>
                        if blob \<noteq> [] then
                          (case blob ! 0 of
                             Inl e \<Rightarrow>
                               (st1, evs1 @ [Print_failed_to_load_resource e], False, Continue)
                           | Inr text \<Rightarrow>
                               (st1\<lparr>loaded_resources :=
                                      AList.update value text (loaded_resources st1)\<rparr>,
                                evs1 @ [Print_loaded_resource value], False, Continue))
                        else (st1, evs1 @ [Print_no_resource_found value], False, Continue))
            | Inr No_command \<Rightarrow>
                (let (st', evs) = invoke_and_print env st message False
                 in (st', evs, False, Continue))))"

text \<open>
  The loop \<open>while True\<close> over the lines of the input: it ends at \<open>exit\<close> or \<open>quit\<close>, or
  with the \<open>EOFError\<close> of \<open>input()\<close> when the lines run out.
\<close>

fun main_loop :: "backends \<Rightarrow> session \<Rightarrow> string list \<Rightarrow> session \<times> event list \<times> control" where
  "main_loop env st [] = (st, [], Raise EOFError)"
| "main_loop env st [line] =
     (case main_turn env st line None of
        (st', evs, used, Continue) \<Rightarrow> (st', evs, Raise EOFError)
      | (st', evs, used, c) \<Rightarrow> (st', evs, c))"
| "main_loop env st (line # l # rest) =
     (case main_turn env st line (Some l) of
        (st', evs, used, Continue) \<Rightarrow>
          (case (if used then main_loop env st' rest else main_loop env st' (l # rest)) of
             (st'', evs', c) \<Rightarrow> (st'', evs @ evs', c))
      | (st', evs, used, c) \<Rightarrow> (st', evs, c))"

section \<open>Transcripts and concrete collaborators\<close>



text \<open>
  Collaborators for the closed instances below: a model that requests one search and
  then answers, a prompt server that knows \<open>research_prompt\<close> (which requires an
  argument) and a resource server that knows \<open>vector://list\<close>, as \<open>op_server.py\<close>
  declares them; the decoder is \<open>json_loads\<close>.
\<close>

definition stub_backends :: backends where
  "stub_backends =
     \<lparr>llm_with_tool = (\<lambda>messages.
          if length messages = 2
          then Inr (AIMessage [] [Tool_call ''semantic_search'' ''query=x'' ''call_1''])
          else Inr (AIMessage ''done'' [])),
      run_tool = (\<lambda>call. ''result of '' @ tc_name call),
      load_mcp_prompt = (\<lambda>name args.
          if name = ''research_prompt''
          then (case args of
                  None \<Rightarrow> Inl (Exception ''Missing required arguments'')
                | Some a \<Rightarrow> Inr [''You are an AI researcher.''])
          else Inl (Exception ''Unknown prompt'')),
      load_mcp_resources = (\<lambda>uri.
          if uri = ''vector://list'' then Inr [Inr ''DB Name: papers'']
          else Inl (Exception ''Unknown resource'')),
      json_decoder = json_loads\<rparr>"


definition empty_session :: session where
  "empty_session = \<lparr>loaded_resources = [], conversation = []\<rparr>"

definition loaded_session :: session where
  "loaded_session = \<lparr>loaded_resources = [(''x'', ''hello'')], conversation = []\<rparr>"

section \<open>Properties of the string operations\<close>

lemma split1_after_prefix:
  assumes "CHR '':'' \<notin> set p"
  shows "index1 (split1 CHR '':'' (p @ CHR '':'' # s)) = Inr s"
proof -
  have a: "\<And>x. x \<in> set p \<Longrightarrow> x \<noteq> CHR '':''" using assms by auto
  have t: "takeWhile (\<lambda>x. x \<noteq> CHR '':'') (p @ CHR '':'' # s) = p"
    using a by (simp add: takeWhile_append2)
  have d: "dropWhile (\<lambda>x. x \<noteq> CHR '':'') (p @ CHR '':'' # s) = CHR '':'' # s"
    using a by (simp add: dropWhile_append2)
  show ?thesis by (simp add: split1_def index1_def t d)
qed

lemma startswith_append: "startswith (p @ s) p"
  by (simp add: startswith_def)

lemma startswith_decompose: "startswith m p \<Longrightarrow> m = p @ drop (length p) m"
  unfolding startswith_def by (metis append_take_drop_id)

lemma rstrip_keeps_head:
  assumes "rev (dropWhile Q (rev xs)) \<noteq> []"
  shows "hd (rev (dropWhile Q (rev xs))) = hd xs"
proof -
  have "rev xs = takeWhile Q (rev xs) @ dropWhile Q (rev xs)" by simp
  then have "xs = rev (dropWhile Q (rev xs)) @ rev (takeWhile Q (rev xs))"
    by (metis rev_append rev_rev_ident)
  then show ?thesis using assms by (metis hd_append2)
qed

lemma strip_like_idem:
  fixes P :: "'a \<Rightarrow> bool"
  defines "f \<equiv> \<lambda>s. rev (dropWhile P (rev (dropWhile P s)))"
  shows "f (f s) = f s"
proof -
  let ?u = "dropWhile P s"
  let ?t = "f s"
  have r: "dropWhile P (rev ?t) = rev ?t"
    unfolding f_def by (simp add: dropWhile_idem)
  have l: "dropWhile P ?t = ?t"
  proof (cases "?t = []")
    case True then show ?thesis by simp
  next
    case False
    then have "hd ?t = hd ?u" unfolding f_def by (rule rstrip_keeps_head)
    moreover have "?u \<noteq> []"
      using False unfolding f_def by (auto dest: set_dropWhileD)
    then have "\<not> P (hd ?u)" by (rule hd_dropWhile)
    ultimately show ?thesis using False by (simp add: dropWhile_eq_self_iff)
  qed
  have "f ?t = rev (dropWhile P (rev (dropWhile P ?t)))" unfolding f_def ..
  also have "\<dots> = rev (dropWhile P (rev ?t))" using l by simp
  also have "\<dots> = ?t" using r by simp
  finally show ?thesis .
qed

lemma strip_idem: "strip (strip s) = strip s"
  using strip_like_idem [of is_space s] by (simp add: strip_def)

lemma find_char_absent: "c \<notin> set s \<Longrightarrow> find_char s c = - 1"
  by (simp add: find_char_def)

lemma find_char_present:
  "c \<in> set s \<Longrightarrow> find_char s c = int (length (takeWhile (\<lambda>x. x \<noteq> c) s))"
  by (simp add: find_char_def)

lemma take_drop_at_first:
  assumes "c \<in> set s"
  shows "take (length (takeWhile (\<lambda>x. x \<noteq> c) s)) s = takeWhile (\<lambda>x. x \<noteq> c) s"
    and "drop (Suc (length (takeWhile (\<lambda>x. x \<noteq> c) s))) s = tl (dropWhile (\<lambda>x. x \<noteq> c) s)"
proof -
  have s: "s = takeWhile (\<lambda>x. x \<noteq> c) s @ dropWhile (\<lambda>x. x \<noteq> c) s" by simp
  show "take (length (takeWhile (\<lambda>x. x \<noteq> c) s)) s = takeWhile (\<lambda>x. x \<noteq> c) s"
    by (metis append_eq_conv_conj s)
  show "drop (Suc (length (takeWhile (\<lambda>x. x \<noteq> c) s))) s = tl (dropWhile (\<lambda>x. x \<noteq> c) s)"
    by (metis append_eq_conv_conj drop_Suc s tl_drop)
qed

section \<open>Properties of the command classifier\<close>

lemma use_resource_remainder:
  "extract_meta_command (''@use_resource:'' @ s) =
     Inr (if CHR '' '' \<in> set (strip s)
          then Use_resource_cmd (strip (takeWhile (\<lambda>c. c \<noteq> CHR '' '') (strip s)))
                                (strip (tl (dropWhile (\<lambda>c. c \<noteq> CHR '' '') (strip s))))
          else Use_resource_cmd (strip s) [])"
proof -
  have i: "index1 (split1 CHR '':'' (''@use_resource:'' @ s)) = Inr s"
    using split1_after_prefix [of "''@use_resource''" s] by simp
  have p: "startswith (''@use_resource:'' @ s) ''@use_resource:''" by (rule startswith_append)
  have n1: "\<not> startswith (''@use_resource:'' @ s) ''@resource:''"
    by (simp add: startswith_def)
  have n2: "\<not> startswith (''@use_resource:'' @ s) ''@prompt:''"
    by (simp add: startswith_def)
  have e: "extract_meta_command (''@use_resource:'' @ s) =
     (let parts = strip s; space_index = find_char parts CHR '' ''
      in if space_index \<noteq> - 1 then
           Inr (Use_resource_cmd (strip (take (nat space_index) parts))
                                 (strip (drop (nat (space_index + 1)) parts)))
         else Inr (Use_resource_cmd (strip parts) []))"
    unfolding extract_meta_command_def using i p n1 n2 by simp
  show ?thesis
  proof (cases "CHR '' '' \<in> set (strip s)")
    case True
    then show ?thesis
      unfolding e Let_def
      by (simp add: find_char_present take_drop_at_first nat_add_distrib)
  next
    case False
    then show ?thesis
      unfolding e Let_def by (simp add: find_char_absent strip_idem)
  qed
qed

lemma extract_meta_command_total: "\<exists>c. extract_meta_command m = Inr c"
proof -
  have a: "index1 (split1 CHR '':'' m) = Inr (drop (length p) m)"
    if "startswith m p" and "p = q @ '':''" and "CHR '':'' \<notin> set q" for p q
  proof -
    have "m = q @ CHR '':'' # drop (length p) m"
      using startswith_decompose [OF that(1)] that(2) by simp
    then show ?thesis using split1_after_prefix [OF that(3)] by metis
  qed
  have r: "\<exists>x. index1 (split1 CHR '':'' m) = Inr x" if "startswith m ''@resource:''"
    using a [OF that, of "''@resource''"] by simp
  have p: "\<exists>x. index1 (split1 CHR '':'' m) = Inr x" if "startswith m ''@prompt:''"
    using a [OF that, of "''@prompt''"] by simp
  have u: "\<exists>x. index1 (split1 CHR '':'' m) = Inr x" if "startswith m ''@use_resource:''"
    using a [OF that, of "''@use_resource''"] by simp
  show ?thesis
    using r p u by (auto simp add: extract_meta_command_def Let_def)
qed

lemma no_prefix_no_command:
  assumes "\<not> startswith m ''@resource:''" "\<not> startswith m ''@prompt:''"
    "\<not> startswith m ''@use_resource:''"
  shows "extract_meta_command m = Inr No_command"
  using assms by (simp add: extract_meta_command_def)

text \<open>
  Claim C9, as amended. For every line \<open>@resource:s\<close> the classifier returns the
  \<open>resource\<close> classification, and its payload is the remainder \<open>s\<close> with surrounding
  whitespace removed first and then every leading and trailing double-quote character
  removed. Whitespace inside the quotes is kept.
\<close>

theorem resource_payload:
  "extract_meta_command (''@resource:'' @ s) =
     Inr (Resource_cmd (strip_chars [CHR 0x22] (strip s)))"
proof -
  have "index1 (split1 CHR '':'' (''@resource:'' @ s)) = Inr s"
    using split1_after_prefix [of "''@resource''" s] by simp
  moreover have "startswith (''@resource:'' @ s) ''@resource:''" by (rule startswith_append)
  ultimately show ?thesis by (simp add: extract_meta_command_def)
qed

theorem resource_payload_witness:
  "extract_meta_command ''@resource: \"vector://list\" '' = Inr (Resource_cmd ''vector://list'')"
  using resource_payload [of "'' \"vector://list\" ''"]
  by (simp add: strip_def strip_chars_def is_space_def)

text \<open>
  Claim C9 as stated fails: for the line \<open>@resource:" x "\<close> the payload is \<open>x\<close> with a
  space on each side, which is not trimmed.
\<close>

theorem resource_payload_counterexample:
  "extract_meta_command (''@resource:'' @ [CHR 0x22] @ '' x '' @ [CHR 0x22]) =
     Inr (Resource_cmd '' x '')
   \<and> strip '' x '' = ''x''
   \<and> strip (strip_chars [CHR 0x22] ([CHR 0x22] @ '' x '' @ [CHR 0x22])) = ''x''"
  by (simp add: extract_meta_command_def startswith_def split1_def index1_def
      strip_def strip_chars_def is_space_def)

text \<open>
  Claim C7, as amended. The remainder after \<open>@use_resource:\<close> is trimmed and split at its
  first space character (U+0020), not at any other whitespace: the part before it,
  trimmed, is the URI and the part after it, trimmed, is the query; without a space
  character the query is empty. The two examples of the claim hold.
\<close>

theorem use_resource_split_at_first_space:
  "extract_meta_command (''@use_resource:'' @ s) =
     Inr (if CHR '' '' \<in> set (strip s)
          then Use_resource_cmd (strip (takeWhile (\<lambda>c. c \<noteq> CHR '' '') (strip s)))
                                (strip (tl (dropWhile (\<lambda>c. c \<noteq> CHR '' '') (strip s))))
          else Use_resource_cmd (strip s) [])
   \<and> extract_meta_command ''@use_resource:foo bar baz'' = Inr (Use_resource_cmd ''foo'' ''bar baz'')
   \<and> extract_meta_command ''@use_resource:foo'' = Inr (Use_resource_cmd ''foo'' [])"
proof -
  have a: "extract_meta_command ''@use_resource:foo bar baz'' =
             Inr (Use_resource_cmd ''foo'' ''bar baz'')"
    using use_resource_remainder [of "''foo bar baz''"] by (simp add: strip_def is_space_def)
  have b: "extract_meta_command ''@use_resource:foo'' = Inr (Use_resource_cmd ''foo'' [])"
    using use_resource_remainder [of "''foo''"] by (simp add: strip_def is_space_def)
  show ?thesis using use_resource_remainder [of s] a b by simp
qed

theorem use_resource_split_witness:
  "extract_meta_command ''@use_resource:vector://list  which ones?'' =
     Inr (Use_resource_cmd ''vector://list'' ''which ones?'')"
  using use_resource_split_at_first_space [of "''vector://list  which ones?''"]
  by (simp add: strip_def is_space_def)

text \<open>
  Claim C7 as stated fails: a TAB is whitespace, yet \<open>@use_resource:foo<TAB>bar baz\<close> is
  split at the space, so the URI is \<open>foo<TAB>bar\<close> and the query is \<open>baz\<close>.
\<close>

theorem use_resource_split_counterexample:
  "is_space (CHR 0x09)
   \<and> extract_meta_command (''@use_resource:foo'' @ [CHR 0x09] @ ''bar baz'') =
       Inr (Use_resource_cmd (''foo'' @ [CHR 0x09] @ ''bar'') ''baz'')
   \<and> extract_meta_command (''@use_resource:foo'' @ [CHR 0x09] @ ''bar baz'') \<noteq>
       Inr (Use_resource_cmd ''foo'' ''bar baz'')"
  by (simp add: extract_meta_command_def startswith_def split1_def index1_def
      strip_def is_space_def find_char_def)

section \<open>Properties of the graph and of the driver\<close>

lemma at_line_not_exit:
  assumes "startswith m (CHR ''@'' # p)"
  shows "lower m \<noteq> ''exit'' \<and> lower m \<noteq> ''quit''"
proof -
  obtain r where m: "m = CHR ''@'' # r"
    using assms unfolding startswith_def by (cases m) auto
  show ?thesis unfolding m by (simp add: lower_def lower_char_def)
qed

lemma command_line_not_exit:
  assumes "extract_meta_command m = Inr c" and "c \<noteq> No_command"
  shows "lower m \<noteq> ''exit'' \<and> lower m \<noteq> ''quit''"
proof -
  have "startswith m ''@resource:'' \<or> startswith m ''@prompt:'' \<or> startswith m ''@use_resource:''"
    using assms no_prefix_no_command by fastforce
  then show ?thesis using at_line_not_exit by blast
qed

lemma run_graph_extends: "\<exists>ms. fst (run_graph env n nd msgs) = msgs @ ms"
proof (induction n arbitrary: nd msgs)
  case 0
  then show ?case by simp
next
  case (Suc n)
  show ?case
  proof (cases nd)
    case Chat_node
    show ?thesis
    proof (cases "chat_node env msgs")
      case (Inl e)
      then show ?thesis using Chat_node by simp
    next
      case (Inr new)
      show ?thesis
      proof (cases "tools_condition (msgs @ new)")
        case Tools
        obtain ms where "fst (run_graph env n Tool_node (msgs @ new)) = (msgs @ new) @ ms"
          using Suc.IH by blast
        then show ?thesis using Chat_node Inr Tools by simp
      next
        case End
        then show ?thesis using Chat_node Inr by simp
      qed
    qed
  next
    case Tool_node
    obtain ms where
      "fst (run_graph env n Chat_node (msgs @ tool_node env msgs)) = (msgs @ tool_node env msgs) @ ms"
      using Suc.IH by blast
    then show ?thesis using Tool_node by simp
  qed
qed

lemma agent_ainvoke_extends:
  "\<exists>ms. fst (agent_ainvoke env conv text) = conv @ HumanMessage text # ms"
  using run_graph_extends [of env recursion_limit Chat_node "conv @ [HumanMessage text]"]
  by (simp add: agent_ainvoke_def)


lemma invoke_and_print_shape:
  "\<exists>ms rest. invoke_and_print env st text research =
      (st\<lparr>conversation := conversation st @ HumanMessage text # ms\<rparr>, Agent_invoked text # rest)
      \<and> list_all is_print rest"
proof -
  obtain msgs r where a: "agent_ainvoke env (conversation st) text = (msgs, r)"
    by (cases "agent_ainvoke env (conversation st) text")
  obtain ms where m: "msgs = conversation st @ HumanMessage text # ms"
    using agent_ainvoke_extends [of env "conversation st" "text"] a by auto
  show ?thesis
    by (cases r) (auto simp add: invoke_and_print_def a m)
qed


lemma main_turn_use_resource:
  assumes "extract_meta_command (strip line) = Inr (Use_resource_cmd uri q)"
  shows "main_turn env st line nxt =
     (if q = [] then (st, [Print_provide_query, Print_usage], False, Continue)
      else if map_of (loaded_resources st) uri = None then
        (st, [Print_not_loaded uri, Print_load_first uri], False, Continue)
      else (case invoke_and_print env st
                   (inject_resource_into_message (loaded_resources st) q uri) False of
              (st', evs) \<Rightarrow> (st', evs, False, Continue)))"
  using assms command_line_not_exit [OF assms]
  by (simp add: main_turn_def Let_def)


lemma main_turn_resource:
  assumes "extract_meta_command (strip line) = Inr (Resource_cmd v)"
  shows "main_turn env st line nxt =
     (let cached = (map_of (loaded_resources st) v \<noteq> None);
          st1 = (if cached
                 then st\<lparr>loaded_resources := AList.delete v (loaded_resources st)\<rparr>
                 else st);
          evs1 = (if cached then [Print_updating v] else []) @ [Resource_requested v]
      in case load_mcp_resources env v of
           Inl e \<Rightarrow> (st1, evs1 @ [Print_failed_to_load_resource e], False, Continue)
         | Inr blob \<Rightarrow>
             if blob \<noteq> [] then
               (case blob ! 0 of
                  Inl e \<Rightarrow> (st1, evs1 @ [Print_failed_to_load_resource e], False, Continue)
                | Inr text \<Rightarrow>
                    (st1\<lparr>loaded_resources := AList.update v text (loaded_resources st1)\<rparr>,
                     evs1 @ [Print_loaded_resource v], False, Continue))
             else (st1, evs1 @ [Print_no_resource_found v], False, Continue))"
  using assms command_line_not_exit [OF assms]
  by (simp add: main_turn_def)


lemma main_turn_prompt_failure:
  assumes "extract_meta_command (strip line) = Inr (Prompt_cmd name)"
    and "load_mcp_prompt env name None = Inl e"
    and "parse_arguments (json_decoder env) (strip l) = Inr args"
  shows "main_turn env st line (Some l) =
     (let evs1 = [Prompt_requested name None, Print_requires_arguments name e,
                  Print_argument_formats, Arguments_read l]
      in if \<not> truthy args then (st, evs1 @ [Print_failed_to_parse], True, Continue)
         else
           (case load_mcp_prompt env name (Some args) of
              Inr prompt \<Rightarrow>
                (case execute_prompt env st name (Some args) 500 prompt of
                   (st', evs) \<Rightarrow>
                     (st', evs1 @ Prompt_requested name (Some args) # evs, True, Continue))
            | Inl ex \<Rightarrow>
                (st,
                 evs1 @ [Prompt_requested name (Some args), Print_failed_with_arguments ex,
                         Print_arguments_provided args],
                 True, Continue)))"
  using assms command_line_not_exit [OF assms(1)]
  by (simp add: main_turn_def Let_def split: sum.splits prod.splits)

lemma execute_prompt_shape:
  "\<exists>st' evs. execute_prompt env st name args shown prompt = (st', evs)
      \<and> loaded_resources st' = loaded_resources st
      \<and> (\<forall>n a. Prompt_requested n a \<notin> set evs)"
proof (cases "prompt = []")
  case True
  then show ?thesis by (simp add: execute_prompt_def)
next
  case False
  let ?pm = "if length prompt = 1 then prompt ! 0 else join [CHR 0x0A] prompt"
  obtain ms rest where i: "invoke_and_print env st ?pm True =
      (st\<lparr>conversation := conversation st @ HumanMessage ?pm # ms\<rparr>, Agent_invoked ?pm # rest)"
    and p: "list_all is_print rest"
    using invoke_and_print_shape [of env st ?pm True] by blast
  have "\<forall>n a. Prompt_requested n a \<notin> set rest"
    using p by (auto simp add: list_all_iff)
  then show ?thesis using False i by (simp add: execute_prompt_def Let_def)
qed

section \<open>Properties of the JSON decoder\<close>

lemma skip_ws_length: "length (skip_ws s) \<le> length s"
  by (simp add: skip_ws_def length_dropWhile_le)

lemma cons_char_rest:
  "cons_char n x = Inr (str, r) \<Longrightarrow> \<exists>str'. x = Inr (str', r)"
  by (auto simp add: cons_char_def split: sum.splits)

lemma scanstring_shorter: "scanstring s = Inr (str, r) \<Longrightarrow> length r < length s"
proof (induction s arbitrary: str r rule: length_induct)
  case (1 s)
  have step: "length r < length s"
    if a: "cons_char n (scanstring t) = Inr (str, r)" and b: "length t < length s" for t n
  proof -
    obtain str' where "scanstring t = Inr (str', r)" using a cons_char_rest by blast
    then have "length r < length t" using 1(1) b by blast
    then show ?thesis using b by simp
  qed
  show ?case
  proof (cases s)
    case Nil
    then show ?thesis using 1(2) by simp
  next
    case (Cons c cs)
    have "length r < length (c # cs)"
      using 1(2) step unfolding Cons scanstring.simps
      by (simp split: if_splits list.splits option.splits del: scanstring.simps)
    then show ?thesis using Cons by simp
  qed
qed

lemma match_exponent_shorter:
  assumes "match_exponent s = Some (e, r)"
  shows "length r < length s"
proof -
  obtain c r0 where s: "s = c # r0"
    using assms by (cases s) (simp_all add: match_exponent_def)
  define r1 where "r1 = (case r0 of
                      g # r' \<Rightarrow>
                        if (g = CHR ''-'' \<or> g = CHR ''+'') \<and> r' \<noteq> [] then r' else r0
                    | [] \<Rightarrow> r0)"
  define neg where "neg = (case r0 of
                      g # r' \<Rightarrow> (g = CHR ''-'' \<or> g = CHR ''+'') \<and> r' \<noteq> [] \<and> g = CHR ''-''
                    | [] \<Rightarrow> False)"
  have e1: "(case r0 of
               g # r' \<Rightarrow>
                 if (g = CHR ''-'' \<or> g = CHR ''+'') \<and> r' \<noteq> [] then (g = CHR ''-'', r')
                 else (False, r0)
             | [] \<Rightarrow> (False, r0)) = (neg, r1)"
    by (cases r0) (simp_all add: r1_def neg_def)
  have l1: "length r1 \<le> length r0"
    by (cases r0) (simp_all add: r1_def)
  have "match_exponent s =
          (if (c = CHR ''e'' \<or> c = CHR ''E'') \<and> r0 \<noteq> [] then
             (if takeWhile is_digit r1 = [] then None
              else Some ((if neg then - int (digits_value (takeWhile is_digit r1))
                          else int (digits_value (takeWhile is_digit r1))),
                         dropWhile is_digit r1))
           else None)"
    unfolding match_exponent_def s list.case e1 prod.case Let_def ..
  then have "r = dropWhile is_digit r1"
    using assms by (simp split: if_splits)
  then have "length r \<le> length r1" by (simp add: length_dropWhile_le)
  then show ?thesis using l1 s by simp
qed

lemma match_number_digits:
  assumes "match_number s = Some (v, r)"
  shows "\<exists>d t. (s = d # t \<or> s = CHR ''-'' # d # t) \<and> length r \<le> length t"
proof -
  define neg where "neg = (case s of c # r \<Rightarrow> c = CHR ''-'' | [] \<Rightarrow> False)"
  define s1 where "s1 = (case s of c # r \<Rightarrow> if c = CHR ''-'' then r else s | [] \<Rightarrow> s)"
  have ns: "(case s of c # r \<Rightarrow> if c = CHR ''-'' then (True, r) else (False, s)
             | [] \<Rightarrow> (False, s)) = (neg, s1)"
    by (simp add: neg_def s1_def split: list.splits)
  obtain d t where s1: "s1 = d # t"
    using assms unfolding match_number_def ns by (cases s1) simp_all
  have st: "s = d # t \<or> s = CHR ''-'' # d # t"
    using s1 by (auto simp add: s1_def split: list.splits if_splits)
  define ip where "ip = (if d = CHR ''0'' then [d] else d # takeWhile is_digit t)"
  define s2 where "s2 = (if d = CHR ''0'' then t else dropWhile is_digit t)"
  define fp where "fp = (case s2 of
                         p # f # r3 \<Rightarrow>
                           if p = CHR ''.'' \<and> is_digit f then Some (f # takeWhile is_digit r3)
                           else None
                       | _ \<Rightarrow> None)"
  define s3 where "s3 = (case s2 of
                         p # f # r3 \<Rightarrow>
                           if p = CHR ''.'' \<and> is_digit f then dropWhile is_digit r3 else s2
                       | _ \<Rightarrow> s2)"
  have e2: "(if d = CHR ''0'' then ([d], t)
             else (d # takeWhile is_digit t, dropWhile is_digit t)) = (ip, s2)"
    by (simp add: ip_def s2_def)
  have e3: "(case s2 of
               p # f # r3 \<Rightarrow>
                 if p = CHR ''.'' \<and> is_digit f
                 then (Some (f # takeWhile is_digit r3), dropWhile is_digit r3)
                 else (None, s2)
             | _ \<Rightarrow> (None, s2)) = (fp, s3)"
    by (simp add: fp_def s3_def split: list.splits)
  have l2: "length s2 \<le> length t" by (simp add: s2_def length_dropWhile_le)
  have l3: "length s3 \<le> length s2"
    by (auto simp add: s3_def le_SucI length_dropWhile_le split: list.splits)
  define sgn where "sgn = (if neg then - 1 else 1 :: int)"
  have m: "match_number s =
     (if \<not> is_digit d then None
      else case (fp, match_exponent s3) of
             (None, None) \<Rightarrow> Some (JInt (sgn * int (digits_value ip)), s3)
           | (Some fd, None) \<Rightarrow>
               Some (JFloat (Decimal (sgn * int (digits_value (ip @ fd)))
                                     (- int (length fd))), s3)
           | (None, Some (ex, s4)) \<Rightarrow>
               Some (JFloat (Decimal (sgn * int (digits_value ip)) ex), s4)
           | (Some fd, Some (ex, s4)) \<Rightarrow>
               Some (JFloat (Decimal (sgn * int (digits_value (ip @ fd)))
                                     (ex - int (length fd))), s4))"
    unfolding match_number_def ns
    by (simp only: prod.case Let_def s1 list.case e2 e3 sgn_def)
  have "r = s3 \<or> (\<exists>ex. match_exponent s3 = Some (ex, r))"
  proof (cases "match_exponent s3")
    case None
    then show ?thesis using assms m by (cases fp) (simp_all split: if_splits)
  next
    case (Some p)
    obtain ex s4 where p: "p = (ex, s4)" by (cases p)
    show ?thesis using assms m Some p by (cases fp) (simp_all split: if_splits)
  qed
  then have "length r \<le> length s3"
    using match_exponent_shorter by (auto simp add: less_imp_le)
  then have "length r \<le> length t" using l2 l3 by simp
  then show ?thesis using st by blast
qed

lemma match_number_shorter:
  assumes "match_number s = Some (v, r)"
  shows "length r < length s"
proof -
  obtain d t where "s = d # t \<or> s = CHR ''-'' # d # t" and "length r \<le> length t"
    using match_number_digits [OF assms] by blast
  then show ?thesis by (elim disjE) simp_all
qed


lemma consumes_simps:
  "consumes (Inl JSONDecodeError) s"
  "consumes (Inr (v, r)) s = (length r < length s)"
  by (simp_all add: consumes_def)

lemma consumes_mono: "consumes x t \<Longrightarrow> length t \<le> length s \<Longrightarrow> consumes x s"
  by (auto simp add: consumes_def split: sum.splits)

lemma scanstring_error: "scanstring s = Inl e \<Longrightarrow> e = JSONDecodeError"
proof (induction s arbitrary: e rule: length_induct)
  case (1 s)
  have step: "e = JSONDecodeError"
    if a: "cons_char n (scanstring t) = Inl e" and b: "length t < length s" for t n
  proof -
    have "scanstring t = Inl e"
      using a by (auto simp add: cons_char_def split: sum.splits)
    then show ?thesis using 1(1) b by blast
  qed
  show ?case
  proof (cases s)
    case Nil
    then show ?thesis using 1(2) by simp
  next
    case (Cons c cs)
    show ?thesis
      using 1(2) step unfolding Cons scanstring.simps
      by (simp split: if_splits list.splits option.splits del: scanstring.simps)
  qed
qed

lemma scanstring_consumes:
  "consumes (case scanstring s of Inl e \<Rightarrow> Inl e | Inr (str, r) \<Rightarrow> Inr (f str, r)) (c # s)"
proof (cases "scanstring s")
  case (Inl e)
  then show ?thesis using scanstring_error [OF Inl] by (simp add: consumes_def)
next
  case (Inr p)
  obtain str r where p: "p = (str, r)" by (cases p)
  have "length r < length s" using Inr p scanstring_shorter by blast
  then show ?thesis using Inr p by (simp add: consumes_def)
qed

lemma match_number_consumes:
  "consumes (case match_number s of None \<Rightarrow> Inl JSONDecodeError | Some vr \<Rightarrow> Inr vr) s"
proof (cases "match_number s")
  case None
  then show ?thesis by (simp add: consumes_def)
next
  case (Some p)
  obtain v r where p: "p = (v, r)" by (cases p)
  have "length r < length s" using Some p match_number_shorter by blast
  then show ?thesis using Some p by (simp add: consumes_def)
qed


lemma scan_once_step:
  assumes arr: "\<And>t. length t < length s \<Longrightarrow> consumes (parse_array n t []) t"
    and obj: "\<And>t. length t < length s \<Longrightarrow> consumes (parse_object n t []) t"
  shows "consumes (scan_once (Suc n) s) s"
proof (cases s)
  case Nil
  then show ?thesis by (simp add: consumes_def)
next
  case (Cons c cs)
  have ws: "length (skip_ws cs) < length s" using skip_ws_length [of cs] Cons by simp
  have a: "consumes (case skip_ws cs of
                       [] \<Rightarrow> parse_array n [] []
                     | k # r \<Rightarrow> if k = CHR '']'' then Inr (JList [], r)
                                else parse_array n (k # r) []) s"
  proof (cases "skip_ws cs")
    case Nil
    then show ?thesis using arr [of "[]"] ws by (auto intro: consumes_mono)
  next
    case (Cons k r)
    have "consumes (parse_array n (k # r) []) s"
      using arr [of "k # r"] ws Cons by (auto intro: consumes_mono)
    then show ?thesis using Cons ws by (simp add: consumes_def)
  qed
  have o: "consumes (case skip_ws cs of
                       [] \<Rightarrow> parse_object n [] []
                     | k # r \<Rightarrow> if k = CHR ''}'' then Inr (JDict [], r)
                                else parse_object n (k # r) []) s"
  proof (cases "skip_ws cs")
    case Nil
    then show ?thesis using obj [of "[]"] ws by (auto intro: consumes_mono)
  next
    case (Cons k r)
    have "consumes (parse_object n (k # r) []) s"
      using obj [of "k # r"] ws Cons by (auto intro: consumes_mono)
    then show ?thesis using Cons ws by (simp add: consumes_def)
  qed
  show ?thesis
    unfolding Cons scan_once.simps
    using a o scanstring_consumes [of JStr cs c] match_number_consumes [of "c # cs"]
    by (auto simp add: Cons consumes_simps)
qed

lemma parse_array_step:
  assumes sc: "consumes (scan_once n s) s"
    and again: "\<And>t items'. length t < length s \<Longrightarrow> consumes (parse_array n t items') t"
  shows "consumes (parse_array (Suc n) s items) s"
proof (cases "scan_once n s")
  case (Inl e)
  then show ?thesis using sc by (simp add: consumes_def)
next
  case (Inr p)
  obtain val r where p: "p = (val, r)" by (cases p)
  have r: "length r < length s" using sc Inr p by (simp add: consumes_def)
  show ?thesis
  proof (cases "skip_ws r")
    case Nil
    then show ?thesis using Inr p by (simp add: consumes_def)
  next
    case (Cons k r')
    have k: "Suc (length r') \<le> length r" using skip_ws_length [of r] Cons by simp
    have "length (skip_ws r') < length s" using skip_ws_length [of r'] k r by simp
    then have "consumes (parse_array n (skip_ws r') (items @ [val])) s"
      using again [of "skip_ws r'" "items @ [val]"] by (auto intro: consumes_mono)
    then show ?thesis using Inr p Cons k r by (simp add: consumes_def)
  qed
qed

lemma parse_object_step:
  assumes sc: "\<And>t. length t < length s \<Longrightarrow> consumes (scan_once n t) t"
    and again: "\<And>t pairs'. length t < length s \<Longrightarrow> consumes (parse_object n t pairs') t"
  shows "consumes (parse_object (Suc n) s pairs) s"
proof (cases s)
  case Nil
  then show ?thesis by (simp add: consumes_def)
next
  case (Cons q s1)
  show ?thesis
  proof (cases "q \<noteq> CHR 0x22")
    case True
    then show ?thesis using Cons by (simp add: consumes_def)
  next
    case False
    show ?thesis
    proof (cases "scanstring s1")
      case (Inl e)
      then show ?thesis using Cons False scanstring_error [OF Inl] by (simp add: consumes_def)
    next
      case (Inr p)
      obtain key r where p: "p = (key, r)" by (cases p)
      have r: "length r < length s1" using Inr p scanstring_shorter by blast
      show ?thesis
      proof (cases "skip_ws r")
        case Nil
        then show ?thesis using Cons False Inr p by (simp add: consumes_def)
      next
        case c1: (Cons col r1)
        have r1: "Suc (length r1) \<le> length r" using skip_ws_length [of r] c1 by simp
        show ?thesis
        proof (cases "col \<noteq> CHR '':''")
          case True
          then show ?thesis using Cons False Inr p c1 by (simp add: consumes_def)
        next
          case colon: False
          have t: "length (skip_ws r1) < length s"
            using skip_ws_length [of r1] r1 r Cons by simp
          show ?thesis
          proof (cases "scan_once n (skip_ws r1)")
            case i2: (Inl e)
            have "e = JSONDecodeError" using sc [OF t] i2 by (simp add: consumes_def)
            then show ?thesis using Cons False Inr p c1 colon i2 by (simp add: consumes_def)
          next
            case v: (Inr pv)
            obtain val r2 where pv: "pv = (val, r2)" by (cases pv)
            have r2: "length r2 < length (skip_ws r1)"
              using sc [OF t] v pv by (simp add: consumes_def)
            show ?thesis
            proof (cases "skip_ws r2")
              case Nil
              then show ?thesis using Cons False Inr p c1 colon v pv by (simp add: consumes_def)
            next
              case c3: (Cons k r3)
              have r3: "Suc (length r3) \<le> length r2" using skip_ws_length [of r2] c3 by simp
              have "length (skip_ws r3) < length s"
                using skip_ws_length [of r3] r3 r2 t by simp
              then have rec: "consumes (parse_object n (skip_ws r3) (AList.update key val pairs)) s"
                using again [of "skip_ws r3" "AList.update key val pairs"]
                by (auto intro: consumes_mono)
              have short: "length r3 < length s" using r3 r2 t by simp
              have eq: "parse_object (Suc n) s pairs =
                      (if k = CHR ''}'' then Inr (JDict (AList.update key val pairs), r3)
                       else if k = CHR '','' then
                         parse_object n (skip_ws r3) (AList.update key val pairs)
                       else Inl JSONDecodeError)"
                using Cons False Inr p c1 colon v pv c3 by simp
              show ?thesis
                unfolding eq using rec short by (simp add: consumes_simps)
            qed
          qed
        qed
      qed
    qed
  qed
qed

lemma scan_fuel:
  "(2 * length s + 1 \<le> n \<longrightarrow> consumes (scan_once n s) s)
   \<and> (2 * length s + 2 \<le> n \<longrightarrow>
        (\<forall>items. consumes (parse_array n s items) s)
        \<and> (\<forall>pairs. consumes (parse_object n s pairs) s))"
proof (induction n arbitrary: s)
  case 0
  then show ?case by simp
next
  case (Suc n)
  have sc: "consumes (scan_once n t) t" if "2 * length t + 1 \<le> n" for t
    using Suc.IH [of t] that by simp
  have ar: "consumes (parse_array n t items) t" if "2 * length t + 2 \<le> n" for t items
    using Suc.IH [of t] that by simp
  have ob: "consumes (parse_object n t pairs) t" if "2 * length t + 2 \<le> n" for t pairs
    using Suc.IH [of t] that by simp
  have a: "consumes (scan_once (Suc n) s) s" if "2 * length s + 1 \<le> Suc n"
    using that by (intro scan_once_step ar ob) simp_all
  have b: "consumes (parse_array (Suc n) s items) s" if "2 * length s + 2 \<le> Suc n" for items
    using that by (intro parse_array_step sc ar) simp_all
  have c: "consumes (parse_object (Suc n) s pairs) s" if "2 * length s + 2 \<le> Suc n" for pairs
    using that by (intro parse_object_step sc ob) simp_all
  show ?case using a b c by blast
qed

lemma json_loads_error: "json_loads s = Inl e \<Longrightarrow> e = JSONDecodeError"
proof -
  have "2 * length (skip_ws s) + 1 \<le> 2 * length s + 2"
    using skip_ws_length [of s] by simp
  then have "consumes (scan_once (2 * length s + 2) (skip_ws s)) (skip_ws s)"
    using scan_fuel [of "skip_ws s" "2 * length s + 2"] by blast
  then show "json_loads s = Inl e \<Longrightarrow> e = JSONDecodeError"
    by (auto simp add: json_loads_def consumes_def split: sum.splits if_splits)
qed

section \<open>Properties of the argument parser\<close>

lemma pairs_loop_no_exception: "snd (pairs_loop ps args) = None"
  by (induction ps arbitrary: args) (simp_all add: split1_def)

lemma pairs_loop_no_colon:
  "\<forall>p\<in>set ps. CHR '':'' \<notin> set p \<Longrightarrow> pairs_loop ps args = (args, None)"
  by (induction ps arbitrary: args) simp_all

lemma split_all_chars: "w \<in> set (split_all c s) \<Longrightarrow> set w \<subseteq> set s"
proof (induction s arbitrary: w)
  case Nil
  then show ?case by simp
next
  case (Cons x xs)
  show ?case
  proof (cases "x = c")
    case True
    then show ?thesis using Cons by auto
  next
    case False
    then show ?thesis using Cons by (cases "split_all c xs") fastforce+
  qed
qed

lemma set_strip_subset: "set (strip s) \<subseteq> set s"
proof -
  have "set (dropWhile is_space (rev (dropWhile is_space s))) \<subseteq> set (rev (dropWhile is_space s))"
    by (auto dest: set_dropWhileD)
  also have "\<dots> \<subseteq> set s" by (auto dest: set_dropWhileD)
  finally show ?thesis by (simp add: strip_def)
qed

lemma parse_arguments_decoded:
  "loads (strip s) = Inr v \<Longrightarrow> parse_arguments loads s = Inr v"
  by (simp add: parse_arguments_def)

lemma parse_arguments_not_json:
  assumes "loads (strip s) = Inl JSONDecodeError"
  shows "parse_arguments loads s =
           Inr (JDict (fst (pairs_loop (split_all CHR '','' (strip s)) [])))"
proof -
  obtain args where p: "pairs_loop (split_all CHR '','' (strip s)) [] = (args, None)"
    using pairs_loop_no_exception [of "split_all CHR '','' (strip s)" "[]"]
    by (cases "pairs_loop (split_all CHR '','' (strip s)) []") auto
  show ?thesis using assms p by (simp add: parse_arguments_def)
qed

lemma parse_arguments_no_pair:
  assumes "loads (strip s) = Inl JSONDecodeError" and "CHR '':'' \<notin> set s"
  shows "parse_arguments loads s = Inr (JDict [])"
proof -
  have "\<forall>p\<in>set (split_all CHR '','' (strip s)). CHR '':'' \<notin> set p"
    using assms(2) split_all_chars set_strip_subset by blast
  then have "pairs_loop (split_all CHR '','' (strip s)) [] = ([], None)"
    by (rule pairs_loop_no_colon)
  then show ?thesis using parse_arguments_not_json [of loads s] assms(1) by simp
qed

lemma parse_arguments_propagates:
  "loads (strip s) = Inl e \<Longrightarrow> e \<noteq> JSONDecodeError \<Longrightarrow> parse_arguments loads s = Inl e"
  by (cases e) (simp_all add: parse_arguments_def)

text \<open>
  Claim C4. The claim says the parser returns a mapping for every input and that the
  structured-decoding step returns its result only when it is a mapping. The code
  returns whatever \<open>json.loads\<close> decoded: for the input \<open>42\<close> the result is the
  integer 42, which is not a mapping.
\<close>

theorem parse_arguments_returns_decoded_integer:
  "json_loads ''42'' = Inr (JInt 42) \<and> parse_arguments json_loads ''42'' = Inr (JInt 42)"
  by code_simp

text \<open>
  Claim C5, as amended. An input that decodes to an empty object and an input that is
  not JSON and holds no colon give the same result, the empty mapping; and in a prompt
  turn whose first resolution failed, the driver answers either of them as the argument
  line with the parse-failure message and ends the turn without resolving again.
\<close>

theorem empty_mapping_is_parse_failure:
  assumes "loads (strip s) = Inr (JDict [])"
    and "loads (strip t) = Inl JSONDecodeError" and "CHR '':'' \<notin> set t"
  shows "parse_arguments loads s = Inr (JDict [])
       \<and> parse_arguments loads t = Inr (JDict [])
       \<and> (extract_meta_command (strip line) = Inr (Prompt_cmd name)
            \<and> load_mcp_prompt env name None = Inl e \<and> json_decoder env = loads \<longrightarrow>
          main_turn env st line (Some s) =
            (st, [Prompt_requested name None, Print_requires_arguments name e,
                  Print_argument_formats, Arguments_read s, Print_failed_to_parse],
             True, Continue)
          \<and> main_turn env st line (Some t) =
            (st, [Prompt_requested name None, Print_requires_arguments name e,
                  Print_argument_formats, Arguments_read t, Print_failed_to_parse],
             True, Continue))"
proof -
  have ps: "parse_arguments loads s = Inr (JDict [])"
    using assms(1) by (rule parse_arguments_decoded)
  have pt: "parse_arguments loads t = Inr (JDict [])"
    using assms(2,3) by (rule parse_arguments_no_pair)
  have ps': "parse_arguments loads (strip s) = Inr (JDict [])"
    using assms(1) by (simp add: parse_arguments_def strip_idem)
  have pt': "parse_arguments loads (strip t) = Inr (JDict [])"
    using pt by (simp add: parse_arguments_def strip_idem)
  show ?thesis
    using ps pt ps' pt'
    by (auto simp add: main_turn_prompt_failure)
qed

theorem empty_mapping_witness:
  "parse_arguments json_loads ''{}'' = Inr (JDict [])
   \<and> parse_arguments json_loads ''nonsense'' = Inr (JDict [])
   \<and> main_turn stub_backends empty_session ''@prompt:research_prompt'' (Some ''{}'') =
       (empty_session,
        [Prompt_requested ''research_prompt'' None,
         Print_requires_arguments ''research_prompt'' (Exception ''Missing required arguments''),
         Print_argument_formats, Arguments_read ''{}'', Print_failed_to_parse],
        True, Continue)
   \<and> main_turn stub_backends empty_session ''@prompt:research_prompt'' (Some ''nonsense'') =
       (empty_session,
        [Prompt_requested ''research_prompt'' None,
         Print_requires_arguments ''research_prompt'' (Exception ''Missing required arguments''),
         Print_argument_formats, Arguments_read ''nonsense'', Print_failed_to_parse],
        True, Continue)"
proof -
  have a: "json_loads (strip ''{}'') = Inr (JDict [])" by code_simp
  have b: "json_loads (strip ''nonsense'') = Inl JSONDecodeError" by code_simp
  have c: "CHR '':'' \<notin> set ''nonsense''" by simp
  have d: "extract_meta_command (strip ''@prompt:research_prompt'') =
             Inr (Prompt_cmd ''research_prompt'')" by code_simp
  have e: "load_mcp_prompt stub_backends ''research_prompt'' None =
             Inl (Exception ''Missing required arguments'')"
    by (simp add: stub_backends_def)
  have f: "json_decoder stub_backends = json_loads" by (simp add: stub_backends_def)
  show ?thesis
    using empty_mapping_is_parse_failure [OF a b c,
        of "''@prompt:research_prompt''" "''research_prompt''" stub_backends
           "Exception ''Missing required arguments''" empty_session] d e f
    by simp
qed

text \<open>
  Claim C5 as stated fails: the parser's results for \<open>{}\<close> and for \<open>nonsense\<close> are equal,
  so no caller can tell them apart.
\<close>

theorem empty_mapping_counterexample:
  "parse_arguments json_loads ''{}'' = parse_arguments json_loads ''nonsense''"
  by code_simp

section \<open>Claims about the driver\<close>

text \<open>
  Claim C8. In a \<open>@use_resource:\<close> turn with an empty query, or with a URI that is not
  in the resource cache, the driver prints the usage hint, respectively the
  load-it-first hint, and does nothing else: the turn makes no call of the agent, and the
  session, conversation and cache, is the one before the turn.
\<close>

theorem use_resource_rejected:
  assumes "extract_meta_command (strip line) = Inr (Use_resource_cmd uri q)"
    and "q = [] \<or> map_of (loaded_resources st) uri = None"
  shows "main_turn env st line nxt =
           (st,
            (if q = [] then [Print_provide_query, Print_usage]
             else [Print_not_loaded uri, Print_load_first uri]),
            False, Continue)"
  using assms(2) by (auto simp add: main_turn_use_resource [OF assms(1)])

theorem use_resource_rejected_witness:
  "main_turn stub_backends empty_session ''@use_resource:x summarize'' None =
     (empty_session, [Print_not_loaded ''x'', Print_load_first ''x''], False, Continue)
   \<and> main_turn stub_backends empty_session ''@use_resource:x'' None =
     (empty_session, [Print_provide_query, Print_usage], False, Continue)"
proof -
  have a: "extract_meta_command (strip ''@use_resource:x summarize'') =
             Inr (Use_resource_cmd ''x'' ''summarize'')" by code_simp
  have b: "''summarize'' = [] \<or> map_of (loaded_resources empty_session) ''x'' = None"
    by (simp add: empty_session_def)
  have c: "extract_meta_command (strip ''@use_resource:x'') = Inr (Use_resource_cmd ''x'' [])"
    by code_simp
  have d: "([]::string) = [] \<or> map_of (loaded_resources empty_session) ''x'' = None"
    by simp
  show ?thesis
    using use_resource_rejected [OF a b, of stub_backends None]
      use_resource_rejected [OF c d, of stub_backends None]
    by simp
qed

text \<open>
  Claim C10. In a \<open>@use_resource:\<close> turn, every text handed to the agent is the one
  \<open>inject_resource_into_message\<close> composed for a URI that is in the cache: the marker
  line naming the URI, the cached content, an empty line and the query. The error block
  of the composer never reaches the agent from this path.
\<close>

theorem use_resource_composition:
  assumes "extract_meta_command (strip line) = Inr (Use_resource_cmd uri q)"
    and "main_turn env st line nxt = (st', evs, used, c)"
    and "Agent_invoked txt \<in> set evs"
  shows "\<exists>resource_content.
           map_of (loaded_resources st) uri = Some resource_content
           \<and> txt = inject_resource_into_message (loaded_resources st) q uri
           \<and> txt = ''[USING RESOURCE: '' @ uri @ '']'' @ [CHR 0x0A] @ resource_content
                    @ [CHR 0x0A, CHR 0x0A] @ ''User query: '' @ q"
proof -
  let ?m = "inject_resource_into_message (loaded_resources st) q uri"
  have t: "main_turn env st line nxt =
     (if q = [] then (st, [Print_provide_query, Print_usage], False, Continue)
      else if map_of (loaded_resources st) uri = None then
        (st, [Print_not_loaded uri, Print_load_first uri], False, Continue)
      else (case invoke_and_print env st ?m False of
              (st', evs) \<Rightarrow> (st', evs, False, Continue)))"
    by (rule main_turn_use_resource [OF assms(1)])
  have q: "q \<noteq> []" using t assms(2,3) by (auto split: if_splits)
  have k: "map_of (loaded_resources st) uri \<noteq> None"
    using t q assms(2,3) by (auto split: if_splits)
  then obtain rc where rc: "map_of (loaded_resources st) uri = Some rc" by auto
  obtain ms rest where i: "invoke_and_print env st ?m False =
      (st\<lparr>conversation := conversation st @ HumanMessage ?m # ms\<rparr>, Agent_invoked ?m # rest)"
    and p: "list_all is_print rest"
    using invoke_and_print_shape [of env st ?m False] by blast
  have "evs = Agent_invoked ?m # rest" using t q k i assms(2) by simp
  then have "txt = ?m" using assms(3) p by (auto simp add: list_all_iff)
  then show ?thesis using rc by (simp add: inject_resource_into_message_def)
qed

theorem use_resource_composition_witness:
  "main_turn stub_backends loaded_session ''@use_resource:x what is it?'' None =
     (\<lparr>loaded_resources = [(''x'', ''hello'')],
        conversation =
          [HumanMessage (''[USING RESOURCE: x]'' @ [CHR 0x0A] @ ''hello'' @ [CHR 0x0A, CHR 0x0A]
                          @ ''User query: what is it?''),
           AIMessage [] [Tool_call ''semantic_search'' ''query=x'' ''call_1''],
           ToolMessage ''result of semantic_search'' ''semantic_search'' ''call_1'',
           AIMessage ''done'' []]\<rparr>,
      [Agent_invoked (''[USING RESOURCE: x]'' @ [CHR 0x0A] @ ''hello'' @ [CHR 0x0A, CHR 0x0A]
                       @ ''User query: what is it?''),
       Print_AI ''done''],
      False, Continue)
   \<and> (\<exists>resource_content.
        map_of (loaded_resources loaded_session) ''x'' = Some resource_content
        \<and> ''[USING RESOURCE: x]'' @ [CHR 0x0A] @ ''hello'' @ [CHR 0x0A, CHR 0x0A]
             @ ''User query: what is it?'' =
            ''[USING RESOURCE: '' @ ''x'' @ '']'' @ [CHR 0x0A] @ resource_content
              @ [CHR 0x0A, CHR 0x0A] @ ''User query: '' @ ''what is it?'')"
proof -
  let ?t = "''[USING RESOURCE: x]'' @ [CHR 0x0A] @ ''hello'' @ [CHR 0x0A, CHR 0x0A]
             @ ''User query: what is it?''"
  have a: "extract_meta_command (strip ''@use_resource:x what is it?'') =
             Inr (Use_resource_cmd ''x'' ''what is it?'')" by code_simp
  have b: "main_turn stub_backends loaded_session ''@use_resource:x what is it?'' None =
     (\<lparr>loaded_resources = [(''x'', ''hello'')],
        conversation =
          [HumanMessage ?t,
           AIMessage [] [Tool_call ''semantic_search'' ''query=x'' ''call_1''],
           ToolMessage ''result of semantic_search'' ''semantic_search'' ''call_1'',
           AIMessage ''done'' []]\<rparr>,
      [Agent_invoked ?t, Print_AI ''done''], False, Continue)" by code_simp
  have c: "Agent_invoked ?t \<in> set [Agent_invoked ?t, Print_AI ''done'']" by simp
  show ?thesis
    using use_resource_composition [OF a b c] b by simp
qed



text \<open>
  Claim C2, as amended. In a \<open>@resource:\<close> turn whose fetch raises, the failure is
  reported and the conversation is untouched; the cache afterwards is the cache before
  the turn without the entry of that URI, which the driver removes before it fetches.
  So the cache is unchanged exactly when the URI was not cached.
\<close>

theorem resource_fetch_failure:
  assumes "extract_meta_command (strip line) = Inr (Resource_cmd uri)"
    and "load_mcp_resources env uri = Inl e"
  shows "main_turn env st line nxt =
           (st\<lparr>loaded_resources := AList.delete uri (loaded_resources st)\<rparr>,
            (if map_of (loaded_resources st) uri \<noteq> None then [Print_updating uri] else [])
              @ [Resource_requested uri, Print_failed_to_load_resource e],
            False, Continue)
       \<and> (map_of (loaded_resources st) uri = None \<longrightarrow>
            AList.delete uri (loaded_resources st) = loaded_resources st)
       \<and> map_of (AList.delete uri (loaded_resources st)) = (map_of (loaded_resources st))(uri := None)"
proof -
  have n: "AList.delete uri (loaded_resources st) = loaded_resources st"
    if "map_of (loaded_resources st) uri = None"
    using that by (simp add: map_of_eq_None_iff)
  have "main_turn env st line nxt =
           (st\<lparr>loaded_resources := AList.delete uri (loaded_resources st)\<rparr>,
            (if map_of (loaded_resources st) uri \<noteq> None then [Print_updating uri] else [])
              @ [Resource_requested uri, Print_failed_to_load_resource e],
            False, Continue)"
    using assms(2) n by (auto simp add: main_turn_resource [OF assms(1)] Let_def)
  then show ?thesis using n by (simp add: delete_conv')
qed

theorem resource_fetch_failure_witness:
  "main_turn stub_backends empty_session ''@resource:nowhere'' None =
     (empty_session,
      [Resource_requested ''nowhere'', Print_failed_to_load_resource (Exception ''Unknown resource'')],
      False, Continue)
   \<and> main_turn stub_backends loaded_session ''@resource:x'' None =
     (loaded_session\<lparr>loaded_resources := []\<rparr>,
      [Print_updating ''x'', Resource_requested ''x'',
       Print_failed_to_load_resource (Exception ''Unknown resource'')],
      False, Continue)"
proof -
  have c: "extract_meta_command (strip ''@resource:x'') = Inr (Resource_cmd ''x'')"
    by code_simp
  have d: "load_mcp_resources stub_backends ''x'' = Inl (Exception ''Unknown resource'')"
    by (simp add: stub_backends_def)
  have a: "extract_meta_command (strip ''@resource:nowhere'') = Inr (Resource_cmd ''nowhere'')"
    by code_simp
  have b: "load_mcp_resources stub_backends ''nowhere'' = Inl (Exception ''Unknown resource'')"
    by (simp add: stub_backends_def)
  show ?thesis
    using resource_fetch_failure [OF a b, of empty_session None]
      resource_fetch_failure [OF c d, of loaded_session None]
    by (simp add: empty_session_def loaded_session_def)
qed

text \<open>
  Claim C2 as stated fails: with \<open>x\<close> cached as \<open>hello\<close> and a backend that raises for
  \<open>x\<close>, the turn \<open>@resource:x\<close> leaves an empty cache.
\<close>

theorem resource_fetch_failure_counterexample:
  "load_mcp_resources stub_backends ''x'' = Inl (Exception ''Unknown resource'')
   \<and> loaded_resources loaded_session = [(''x'', ''hello'')]
   \<and> main_turn stub_backends loaded_session ''@resource:x'' None =
       (\<lparr>loaded_resources = [], conversation = []\<rparr>,
        [Print_updating ''x'', Resource_requested ''x'',
         Print_failed_to_load_resource (Exception ''Unknown resource'')],
        False, Continue)"
  by code_simp

text \<open>
  Claim C3, as amended. In a \<open>@prompt:\<close> turn, a failure of the first resolution is
  handled in one way whatever the exception is: the driver reports that the prompt
  requires arguments, shows the argument formats and reads one more line. If the parsed
  line is empty or otherwise false, it reports a parse failure and ends the turn;
  otherwise it resolves the prompt once more, with the parsed arguments, and a failure
  of that resolution is reported and ends the turn. No failure of the first resolution
  ends the turn without the argument prompt.
\<close>

theorem prompt_failure_asks_for_arguments:
  assumes "extract_meta_command (strip line) = Inr (Prompt_cmd name)"
    and "load_mcp_prompt env name None = Inl e"
    and "parse_arguments (json_decoder env) (strip l) = Inr args"
  shows "\<exists>st' rest.
           main_turn env st line (Some l) =
             (st',
              [Prompt_requested name None, Print_requires_arguments name e,
               Print_argument_formats, Arguments_read l] @ rest,
              True, Continue)
           \<and> (if truthy args
              then (\<exists>rest'. rest = Prompt_requested name (Some args) # rest'
                             \<and> (\<forall>n a. Prompt_requested n a \<notin> set rest')
                             \<and> (\<forall>ex. load_mcp_prompt env name (Some args) = Inl ex \<longrightarrow>
                                    st' = st
                                    \<and> rest' = [Print_failed_with_arguments ex,
                                                Print_arguments_provided args]))
              else st' = st \<and> rest = [Print_failed_to_parse])"
proof (cases "truthy args")
  case False
  then show ?thesis
    by (simp add: main_turn_prompt_failure [OF assms])
next
  case True
  show ?thesis
  proof (cases "load_mcp_prompt env name (Some args)")
    case (Inl ex)
    then show ?thesis using True
      by (simp add: main_turn_prompt_failure [OF assms])
  next
    case (Inr prompt)
    obtain st1 evs where x: "execute_prompt env st name (Some args) 500 prompt = (st1, evs)"
      and n: "\<forall>n a. Prompt_requested n a \<notin> set evs"
      using execute_prompt_shape [of env st name "Some args" 500 prompt] by blast
    show ?thesis using True Inr x n
      by (simp add: main_turn_prompt_failure [OF assms])
  qed
qed

theorem prompt_failure_witness:
  "main_turn stub_backends empty_session ''@prompt:research_prompt'' (Some ''topic: ai'') =
     (\<lparr>loaded_resources = [],
        conversation =
          [HumanMessage ''You are an AI researcher.'',
           AIMessage [] [Tool_call ''semantic_search'' ''query=x'' ''call_1''],
           ToolMessage ''result of semantic_search'' ''semantic_search'' ''call_1'',
           AIMessage ''done'' []]\<rparr>,
      [Prompt_requested ''research_prompt'' None,
       Print_requires_arguments ''research_prompt'' (Exception ''Missing required arguments''),
       Print_argument_formats, Arguments_read ''topic: ai'',
       Prompt_requested ''research_prompt'' (Some (JDict [(unicode ''topic'', JStr (unicode ''ai''))])),
       Print_loaded_prompt ''research_prompt''
         (Some (JDict [(unicode ''topic'', JStr (unicode ''ai''))])),
       Print_prompt_content ''You are an AI researcher.'',
       Agent_invoked ''You are an AI researcher.'',
       Print_results_begin, Print_AI ''done'', Print_results_end],
      True, Continue)
   \<and> (\<exists>st' rest.
        main_turn stub_backends empty_session ''@prompt:research_prompt'' (Some ''topic: ai'') =
          (st',
           [Prompt_requested ''research_prompt'' None,
            Print_requires_arguments ''research_prompt'' (Exception ''Missing required arguments''),
            Print_argument_formats, Arguments_read ''topic: ai''] @ rest,
           True, Continue)
        \<and> (\<exists>rest'. rest = Prompt_requested ''research_prompt''
                               (Some (JDict [(unicode ''topic'', JStr (unicode ''ai''))])) # rest'
                     \<and> (\<forall>n a. Prompt_requested n a \<notin> set rest')))"
proof -
  let ?args = "JDict [(unicode ''topic'', JStr (unicode ''ai''))]"
  have a: "extract_meta_command (strip ''@prompt:research_prompt'') =
             Inr (Prompt_cmd ''research_prompt'')" by code_simp
  have b: "load_mcp_prompt stub_backends ''research_prompt'' None =
             Inl (Exception ''Missing required arguments'')"
    by (simp add: stub_backends_def)
  have c: "parse_arguments (json_decoder stub_backends) (strip ''topic: ai'') = Inr ?args"
    by code_simp
  have d: "truthy ?args" by simp
  have e: "main_turn stub_backends empty_session ''@prompt:research_prompt'' (Some ''topic: ai'') =
     (\<lparr>loaded_resources = [],
        conversation =
          [HumanMessage ''You are an AI researcher.'',
           AIMessage [] [Tool_call ''semantic_search'' ''query=x'' ''call_1''],
           ToolMessage ''result of semantic_search'' ''semantic_search'' ''call_1'',
           AIMessage ''done'' []]\<rparr>,
      [Prompt_requested ''research_prompt'' None,
       Print_requires_arguments ''research_prompt'' (Exception ''Missing required arguments''),
       Print_argument_formats, Arguments_read ''topic: ai'',
       Prompt_requested ''research_prompt'' (Some ?args),
       Print_loaded_prompt ''research_prompt'' (Some ?args),
       Print_prompt_content ''You are an AI researcher.'',
       Agent_invoked ''You are an AI researcher.'',
       Print_results_begin, Print_AI ''done'', Print_results_end],
      True, Continue)" by code_simp
  have f: "\<exists>st' rest.
        main_turn stub_backends empty_session ''@prompt:research_prompt'' (Some ''topic: ai'') =
          (st',
           [Prompt_requested ''research_prompt'' None,
            Print_requires_arguments ''research_prompt'' (Exception ''Missing required arguments''),
            Print_argument_formats, Arguments_read ''topic: ai''] @ rest,
           True, Continue)
        \<and> (\<exists>rest'. rest = Prompt_requested ''research_prompt'' (Some ?args) # rest'
                     \<and> (\<forall>n a. Prompt_requested n a \<notin> set rest'))"
    using prompt_failure_asks_for_arguments [OF a b c, of empty_session] d
    by (simp only: if_True) blast
  show ?thesis using e f by blast
qed

text \<open>
  Claim C3 as stated fails: the prompt server does not know \<open>nope\<close>, yet the driver
  asks for arguments, reads the next line and resolves \<open>nope\<close> a second time.
\<close>

theorem prompt_failure_counterexample:
  "load_mcp_prompt stub_backends ''nope'' None = Inl (Exception ''Unknown prompt'')
   \<and> main_turn stub_backends empty_session ''@prompt:nope'' (Some ''topic: ai'') =
       (empty_session,
        [Prompt_requested ''nope'' None,
         Print_requires_arguments ''nope'' (Exception ''Unknown prompt''),
         Print_argument_formats, Arguments_read ''topic: ai'',
         Prompt_requested ''nope'' (Some (JDict [(unicode ''topic'', JStr (unicode ''ai''))])),
         Print_failed_with_arguments (Exception ''Unknown prompt''),
         Print_arguments_provided (JDict [(unicode ''topic'', JStr (unicode ''ai''))])],
        True, Continue)"
  by code_simp

text \<open>
  A session of four lines: a use of a resource that is not loaded is rejected, the
  resource is loaded, the same use now reaches the agent with the composed message,
  and \<open>Quit\<close> ends the loop before the last line is read.
\<close>

lemma session_example:
  "main_loop stub_backends empty_session
     [''@use_resource:vector://list which?'', ''@resource:vector://list'',
      ''@use_resource:vector://list which?'', '' Quit '', ''more''] =
   (\<lparr>loaded_resources = [(''vector://list'', ''DB Name: papers'')],
      conversation =
        [HumanMessage (''[USING RESOURCE: vector://list]'' @ [CHR 0x0A] @ ''DB Name: papers''
                        @ [CHR 0x0A, CHR 0x0A] @ ''User query: which?''),
         AIMessage [] [Tool_call ''semantic_search'' ''query=x'' ''call_1''],
         ToolMessage ''result of semantic_search'' ''semantic_search'' ''call_1'',
         AIMessage ''done'' []]\<rparr>,
    [Print_not_loaded ''vector://list'', Print_load_first ''vector://list'',
     Resource_requested ''vector://list'', Print_loaded_resource ''vector://list'',
     Agent_invoked (''[USING RESOURCE: vector://list]'' @ [CHR 0x0A] @ ''DB Name: papers''
                     @ [CHR 0x0A, CHR 0x0A] @ ''User query: which?''),
     Print_AI ''done''],
    Break)"
  by code_simp

section \<open>Claims about the orchestration graph\<close>




end
